theory Spec2Isabelle
  imports Complex_Main "HOL-Library.AList" "HOL-Library.Sublist" "HOL-Library.Log_Nat"
begin

section \<open>Data model\<close>

text \<open>
  The package \<^verbatim>\<open>brunnermunzel_from_count_data\<close> works on count data: Python dicts from a
  value to its number of occurrences. A dict is modelled as an association list in
  insertion order; a well-formed dict has pairwise different keys
  (\<open>distinct (map fst x)\<close>), which the theorems assume where they need it.

  Numbers. Counts are Python \<^verbatim>\<open>int\<close>s (unbounded), modelled as \<open>int\<close>. A Python \<^verbatim>\<open>float\<close>
  is modelled by the real number it stands for. The division \<^verbatim>\<open>(minrank + maxrank) / 2\<close> of
  \<^verbatim>\<open>rank_count_data\<close>, of two ints, is modelled as Python computes it: the result is the
  binary64 number nearest to the quotient, and OverflowError when that is too large
  (\<open>int_truediv_2\<close>). The arithmetic of lines 174 to 203 on floats (sums, products,
  quotients, the square root) is modelled without rounding and without overflow: the
  statements about the statistic are about exact arithmetic on the ranks. Where the source
  computes with numpy scalars, whose division by zero and square root of a negative
  number give an infinity or NaN instead of raising, the result type is \<open>npfloat\<close>.

  Keys of the count data given to the test are finite numbers or the NaN marker
  (\<^verbatim>\<open>np.nan\<close>), type \<open>value_t\<close>; infinite keys are outside the model. The ranking and
  joining functions are polymorphic in the key type; ranking needs a total order on it.
\<close>

datatype error = ValueError string | ZeroDivisionError | KeyError | OverflowError

datatype value_t = Val real | Nan

datatype npfloat = Fin real | PInf | NInf | NaN

datatype nan_policy = Propagate | Raise | Omit

type_synonym count_t = int
type_synonym rank_t = real
type_synonym 'k count_data_t = "('k \<times> count_t) list"

record BrunnerMunzelResult =
  statistic :: npfloat
  pvalue :: npfloat

subsection \<open>Dict operations\<close>

text \<open>\<^verbatim>\<open>d[k]\<close> raises KeyError on a missing key; \<^verbatim>\<open>d.get(k, default)\<close> does not.
  \<^verbatim>\<open>d[k] = v\<close> is \<open>AList.update k v d\<close>: an existing key keeps its place, a new key is
  appended.\<close>

definition getitem :: "('k \<times> 'v) list \<Rightarrow> 'k \<Rightarrow> error + 'v" where
  "getitem d k = (case map_of d k of None \<Rightarrow> Inl KeyError | Some v \<Rightarrow> Inr v)"

definition dict_get :: "('k \<times> 'v) list \<Rightarrow> 'k \<Rightarrow> 'v \<Rightarrow> 'v" where
  "dict_get d k dflt = (case map_of d k of None \<Rightarrow> dflt | Some v \<Rightarrow> v)"

text \<open>A statement that may raise, followed by the rest of the function: the first
  exception ends the call.\<close>

definition bind_err :: "error + 'a \<Rightarrow> ('a \<Rightarrow> error + 'b) \<Rightarrow> error + 'b" where
  "bind_err m f = (case m of Inl e \<Rightarrow> Inl e | Inr a \<Rightarrow> f a)"

text \<open>
  \<^verbatim>\<open>a / 2\<close> for a Python int \<^verbatim>\<open>a\<close>. A binary64 number has 53 significant bits:
  \<open>round_to_53_bits n\<close>, for \<open>n \<ge> 0\<close>, keeps the 53 leading bits of \<open>n\<close> and rounds the
  rest to nearest, a tie to the even neighbour. Halving the result is exact. The largest
  binary64 number is \<open>2 ^ 1024 - 2 ^ 971\<close>; a quotient that rounds to \<open>2 ^ 1024\<close> or more
  raises OverflowError.
\<close>

definition round_to_53_bits :: "int \<Rightarrow> int" where
  "round_to_53_bits n =
     (let s = nat (bitlen n - 53) in
      if s = 0 then n
      else (let q = n div 2 ^ s; r = n mod 2 ^ s; half = 2 ^ (s - 1)
            in (if half < r \<or> (r = half \<and> odd q) then q + 1 else q) * 2 ^ s))"

definition int_truediv_2 :: "int \<Rightarrow> error + real" where
  "int_truediv_2 a =
     (let n = round_to_53_bits \<bar>a\<bar> in
      if 2 ^ 1025 \<le> n then Inl OverflowError
      else Inr (real_of_int (sgn a * n) / 2))"

text \<open>\<^verbatim>\<open>a in b\<close> on two Python strings is the substring test.\<close>

definition str_in :: "string \<Rightarrow> string \<Rightarrow> bool" where
  "str_in a b = sublist a b"

section \<open>join\_count\_data\<close>

text \<open>
  \<^verbatim>\<open>
  ret = {}
  for x in args:
      for v, c in x.items():
          ret[v] = ret.get(v, 0) + c
  return ret
  \<close>
\<close>

definition join_step :: "'k \<times> count_t \<Rightarrow> 'k count_data_t \<Rightarrow> 'k count_data_t" where
  "join_step = (\<lambda>(v, c) ret. AList.update v (dict_get ret v 0 + c) ret)"

definition join_count_data :: "'k count_data_t list \<Rightarrow> 'k count_data_t" where
  "join_count_data args = fold (\<lambda>x ret. fold join_step x ret) args []"

section \<open>rank\_count\_data\<close>

text \<open>
  \<^verbatim>\<open>
  if method not in ("average"):
      raise ValueError('unknown method "{0}"'.format(method))
  r = 1
  minmaxranks = {}
  for v in sorted(list(x.keys())):
      minmaxranks[v] = (r, r + x[v] - 1)
      r += x[v]
  return {v: (minrank + maxrank) / 2 for v, (minrank, maxrank) in minmaxranks.items()}
  \<close>
  The parenthesised \<^verbatim>\<open>("average")\<close> is a string, not a one-element tuple, so the test is
  the substring test \<open>str_in\<close>. The loop is \<open>minmaxranks_loop\<close>, with the cursor \<open>r\<close> and
  the dict built so far as arguments. The dict comprehension of the last line is
  \<open>average_ranks\<close>: it divides entry by entry, and the first division that overflows ends
  the call.
\<close>

fun minmaxranks_loop ::
  "'k count_data_t \<Rightarrow> 'k list \<Rightarrow> int \<Rightarrow> ('k \<times> int \<times> int) list \<Rightarrow> error + ('k \<times> int \<times> int) list"
where
  "minmaxranks_loop x [] r minmaxranks = Inr minmaxranks"
| "minmaxranks_loop x (v # vs) r minmaxranks =
     (case getitem x v of
        Inl e \<Rightarrow> Inl e
      | Inr c \<Rightarrow> minmaxranks_loop x vs (r + c) (AList.update v (r, r + c - 1) minmaxranks))"

fun average_ranks :: "('k \<times> int \<times> int) list \<Rightarrow> error + ('k \<times> rank_t) list" where
  "average_ranks [] = Inr []"
| "average_ranks ((v, (minrank, maxrank)) # minmaxranks) =
     bind_err (int_truediv_2 (minrank + maxrank)) (\<lambda>rank.
     bind_err (average_ranks minmaxranks) (\<lambda>ranks. Inr ((v, rank) # ranks)))"

definition rank_count_data ::
  "('k::linorder) count_data_t \<Rightarrow> string \<Rightarrow> error + ('k \<times> rank_t) list"
where
  "rank_count_data x method =
     (if \<not> str_in method ''average''
      then Inl (ValueError (''unknown method '' @ [CHR 0x22] @ method @ [CHR 0x22]))
      else bind_err (minmaxranks_loop x (sort (map fst x)) 1 []) average_ranks)"

section \<open>brunnermunzel\_from\_count\_data\<close>

subsection \<open>What the source takes from numpy and scipy\<close>

text \<open>
  Modelled from the spec: \<^verbatim>\<open>scipy.stats.stats._contains_nan\<close>, a helper of scipy that is not
  part of this repository. The spec (4.3, step 2): "Detect presence of the missing-value
  marker among the keys of either map. If present and policy is raise: fail with an
  invalid-input error." It returns the flag together with the policy it was given.
\<close>

definition contains_nan :: "value_t list \<Rightarrow> nan_policy \<Rightarrow> error + (bool \<times> nan_policy)" where
  "contains_nan a nan_policy =
     (let contains = (Nan \<in> set a) in
      if contains \<and> nan_policy = Raise
      then Inl (ValueError ''The input contains nan values'')
      else Inr (contains, nan_policy))"

text \<open>
  Arithmetic on numpy scalars, as far as the source uses it: \<^verbatim>\<open>np.sqrt\<close>, a Python number
  times a numpy scalar, a Python number divided by a numpy scalar (no exception: an
  infinity or NaN), \<^verbatim>\<open>1 - p\<close> and \<^verbatim>\<open>np.min([p, q])\<close>. Signed zeros are not modelled.
\<close>

definition np_sqrt :: "real \<Rightarrow> npfloat" where
  "np_sqrt a = (if a < 0 then NaN else Fin (sqrt a))"

fun np_mul :: "real \<Rightarrow> npfloat \<Rightarrow> npfloat" where
  "np_mul a (Fin b) = Fin (a * b)"
| "np_mul a PInf = (if 0 < a then PInf else if a < 0 then NInf else NaN)"
| "np_mul a NInf = (if 0 < a then NInf else if a < 0 then PInf else NaN)"
| "np_mul a NaN = NaN"

fun np_div :: "real \<Rightarrow> npfloat \<Rightarrow> npfloat" where
  "np_div a (Fin b) =
     (if b \<noteq> 0 then Fin (a / b) else if 0 < a then PInf else if a < 0 then NInf else NaN)"
| "np_div a PInf = Fin 0"
| "np_div a NInf = Fin 0"
| "np_div a NaN = NaN"

fun np_one_minus :: "npfloat \<Rightarrow> npfloat" where
  "np_one_minus (Fin p) = Fin (1 - p)"
| "np_one_minus PInf = NInf"
| "np_one_minus NInf = PInf"
| "np_one_minus NaN = NaN"

fun np_min :: "npfloat \<Rightarrow> npfloat \<Rightarrow> npfloat" where
  "np_min NaN q = NaN"
| "np_min p NaN = NaN"
| "np_min NInf q = NInf"
| "np_min p NInf = NInf"
| "np_min PInf q = q"
| "np_min p PInf = p"
| "np_min (Fin p) (Fin q) = Fin (min p q)"

text \<open>Python's \<^verbatim>\<open>a / n\<close> for a float and an int raises on \<open>n = 0\<close>.\<close>

definition py_truediv :: "real \<Rightarrow> int \<Rightarrow> error + real" where
  "py_truediv a n = (if n = 0 then Inl ZeroDivisionError else Inr (a / real_of_int n))"

subsection \<open>The sums over a count data\<close>

text \<open>\<^verbatim>\<open>sum([f(v, c) for v, c in x.items()])\<close>, where computing a term may raise.\<close>

fun sum_comp :: "('k \<Rightarrow> count_t \<Rightarrow> error + real) \<Rightarrow> 'k count_data_t \<Rightarrow> error + real" where
  "sum_comp f [] = Inr 0"
| "sum_comp f ((v, c) # x) =
     (case f v c of
        Inl e \<Rightarrow> Inl e
      | Inr t \<Rightarrow> (case sum_comp f x of Inl e \<Rightarrow> Inl e | Inr s \<Rightarrow> Inr (t + s)))"

text \<open>\<^verbatim>\<open>sum([rank[v] * c for v, c in x.items()]) / n\<close> (lines 174, 175, 178, 179).\<close>

definition rank_mean :: "('k \<times> rank_t) list \<Rightarrow> 'k count_data_t \<Rightarrow> int \<Rightarrow> error + real" where
  "rank_mean rank x n =
     (case sum_comp (\<lambda>v c. case getitem rank v of
                              Inl e \<Rightarrow> Inl e
                            | Inr r \<Rightarrow> Inr (r * real_of_int c)) x of
        Inl e \<Rightarrow> Inl e
      | Inr s \<Rightarrow> py_truediv s n)"

text \<open>
  \<^verbatim>\<open>
  Sx = sum([pow(rankc[v] - rankx[v] - rankcx_mean + rankx_mean, 2) * c for v, c in x.items()])
  Sx /= nx - 1
  \<close>
  (lines 181 to 187, and 188 to 194 for \<^verbatim>\<open>y\<close>). \<^verbatim>\<open>Sx\<close> is a Python float and \<^verbatim>\<open>nx - 1\<close> a
  Python int, so the division raises when \<^verbatim>\<open>nx\<close> is 1.
\<close>

definition dispersion ::
  "('k \<times> rank_t) list \<Rightarrow> ('k \<times> rank_t) list \<Rightarrow> 'k count_data_t \<Rightarrow> real \<Rightarrow> real \<Rightarrow> int
   \<Rightarrow> error + real"
where
  "dispersion rankc rankx x rankcx_mean rankx_mean nx =
     (case sum_comp (\<lambda>v c. case getitem rankc v of
                              Inl e \<Rightarrow> Inl e
                            | Inr rc \<Rightarrow>
                                (case getitem rankx v of
                                   Inl e \<Rightarrow> Inl e
                                 | Inr rx \<Rightarrow>
                                     Inr ((rc - rx - rankcx_mean + rankx_mean)\<^sup>2
                                          * real_of_int c))) x of
        Inl e \<Rightarrow> Inl e
      | Inr S \<Rightarrow> py_truediv S (nx - 1))"

subsection \<open>Lines 173 to 194: the rank means and the two dispersion estimates\<close>

record moments =
  rankcx_mean :: real
  rankcy_mean :: real
  Sx :: real
  Sy :: real

definition bm_moments ::
  "('k::linorder) count_data_t \<Rightarrow> 'k count_data_t \<Rightarrow> int \<Rightarrow> int \<Rightarrow> error + moments"
where
  "bm_moments x y nx ny =
     bind_err (rank_count_data (join_count_data [x, y]) ''average'') (\<lambda>rankc.
     bind_err (rank_mean rankc x nx) (\<lambda>rcx_mean.
     bind_err (rank_mean rankc y ny) (\<lambda>rcy_mean.
     bind_err (rank_count_data x ''average'') (\<lambda>rankx.
     bind_err (rank_count_data y ''average'') (\<lambda>ranky.
     bind_err (rank_mean rankx x nx) (\<lambda>rankx_mean.
     bind_err (rank_mean ranky y ny) (\<lambda>ranky_mean.
     bind_err (dispersion rankc rankx x rcx_mean rankx_mean nx) (\<lambda>sx.
     bind_err (dispersion rankc ranky y rcy_mean ranky_mean ny) (\<lambda>sy.
     Inr \<lparr>rankcx_mean = rcx_mean, rankcy_mean = rcy_mean, Sx = sx, Sy = sy\<rparr>)))))))))"

subsection \<open>Lines 196 to 219: the statistic and the p-value\<close>

text \<open>
  The two cumulative distribution functions of scipy, \<^verbatim>\<open>distributions.t.cdf\<close> and
  \<^verbatim>\<open>distributions.norm.cdf\<close>, are parameters \<open>t_cdf\<close> and \<open>norm_cdf\<close>. The term
  \<^verbatim>\<open>nx * Sx + ny * Sy\<close> under the square root is \<open>pooled\<close>. In \<^verbatim>\<open>df_denom\<close> the divisors
  \<^verbatim>\<open>nx - 1\<close> and \<^verbatim>\<open>ny - 1\<close> are not 0: line 187 or 194 has raised otherwise.
\<close>

definition pooled :: "int \<Rightarrow> int \<Rightarrow> moments \<Rightarrow> real" where
  "pooled nx ny m = real_of_int nx * Sx m + real_of_int ny * Sy m"

definition wbfn :: "int \<Rightarrow> int \<Rightarrow> moments \<Rightarrow> npfloat" where
  "wbfn nx ny m =
     np_div (real_of_int (nx * ny) * (rankcy_mean m - rankcx_mean m))
            (np_mul (real_of_int (nx + ny)) (np_sqrt (pooled nx ny m)))"

definition bm_pvalue ::
  "(npfloat \<Rightarrow> npfloat \<Rightarrow> npfloat) \<Rightarrow> (npfloat \<Rightarrow> npfloat) \<Rightarrow> int \<Rightarrow> int \<Rightarrow> moments
   \<Rightarrow> string \<Rightarrow> string \<Rightarrow> error + npfloat"
where
  "bm_pvalue t_cdf norm_cdf nx ny m alternative distribution =
     (case (if distribution = ''t'' then
              (let df_numer = (pooled nx ny m)\<^sup>2;
                   df_denom = (real_of_int nx * Sx m)\<^sup>2 / real_of_int (nx - 1)
                              + (real_of_int ny * Sy m)\<^sup>2 / real_of_int (ny - 1);
                   df = np_div df_numer (Fin df_denom)
               in Inr (t_cdf (wbfn nx ny m) df))
            else if distribution = ''normal'' then Inr (norm_cdf (wbfn nx ny m))
            else Inl (ValueError (''distribution should be '' @ [CHR 0x27] @ ''t'' @ [CHR 0x27]
                                  @ '' or '' @ [CHR 0x27] @ ''normal'' @ [CHR 0x27])))
      of Inl e \<Rightarrow> Inl e
       | Inr p \<Rightarrow>
           if alternative = ''greater'' then Inr p
           else if alternative = ''less'' then Inr (np_one_minus p)
           else if alternative = ''two-sided'' then Inr (np_mul 2 (np_min p (np_one_minus p)))
           else Inl (ValueError (''alternative should be '' @ [CHR 0x27] @ ''less'' @ [CHR 0x27]
                                 @ '', '' @ [CHR 0x27] @ ''greater'' @ [CHR 0x27]
                                 @ '' or '' @ [CHR 0x27] @ ''two-sided'' @ [CHR 0x27])))"

subsection \<open>Lines 169 to 219, on count data without NaN keys\<close>

definition bm_core ::
  "(npfloat \<Rightarrow> npfloat \<Rightarrow> npfloat) \<Rightarrow> (npfloat \<Rightarrow> npfloat)
   \<Rightarrow> ('k::linorder) count_data_t \<Rightarrow> 'k count_data_t \<Rightarrow> string \<Rightarrow> string
   \<Rightarrow> error + BrunnerMunzelResult"
where
  "bm_core t_cdf norm_cdf x y alternative distribution =
     (let nx = sum_list (map snd x); ny = sum_list (map snd y) in
      if nx = 0 \<or> ny = 0 then Inr \<lparr>statistic = NaN, pvalue = NaN\<rparr>
      else case bm_moments x y nx ny of
             Inl e \<Rightarrow> Inl e
           | Inr m \<Rightarrow>
               (case bm_pvalue t_cdf norm_cdf nx ny m alternative distribution of
                  Inl e \<Rightarrow> Inl e
                | Inr p \<Rightarrow> Inr \<lparr>statistic = wbfn nx ny m, pvalue = p\<rparr>))"

subsection \<open>The whole function\<close>

text \<open>
  Lines 155 to 167 check the counts and handle NaN keys. After them no NaN key is left
  (none was there, or the policy is omit and they are filtered out, or line 157 or 158 has
  raised), so \<open>finite_keys\<close> only changes the type of the keys on the way to \<open>bm_core\<close>.
\<close>

definition finite_keys :: "value_t count_data_t \<Rightarrow> real count_data_t" where
  "finite_keys x = concat (map (\<lambda>(v, c). case v of Val a \<Rightarrow> [(a, c)] | Nan \<Rightarrow> []) x)"

definition brunnermunzel_from_count_data ::
  "(npfloat \<Rightarrow> npfloat \<Rightarrow> npfloat) \<Rightarrow> (npfloat \<Rightarrow> npfloat)
   \<Rightarrow> value_t count_data_t \<Rightarrow> value_t count_data_t \<Rightarrow> string \<Rightarrow> string \<Rightarrow> nan_policy
   \<Rightarrow> error + BrunnerMunzelResult"
where
  "brunnermunzel_from_count_data t_cdf norm_cdf x y alternative distribution nan_policy =
     (if [c \<leftarrow> map snd x. c < 0] \<noteq> [] \<or> [c \<leftarrow> map snd y. c < 0] \<noteq> []
      then Inl (ValueError ''The input contains negative counts'')
      else
        bind_err (contains_nan (map fst x) nan_policy) (\<lambda>(cnx, npx).
        bind_err (contains_nan (map fst y) nan_policy) (\<lambda>(cny, npy).
          (let contains = (cnx \<or> cny);
               policy = (if npx = Omit \<or> npy = Omit then Omit else nan_policy)
           in if contains \<and> policy = Propagate then Inr \<lparr>statistic = NaN, pvalue = NaN\<rparr>
              else (let x' = (if contains \<and> policy = Omit
                              then filter (\<lambda>(v, c). v \<noteq> Nan) x else x);
                        y' = (if contains \<and> policy = Omit
                              then filter (\<lambda>(v, c). v \<noteq> Nan) y else y)
                    in bm_core t_cdf norm_cdf (finite_keys x') (finite_keys y')
                         alternative distribution)))))"

section \<open>Notions used in the statements\<close>

text \<open>
  \<open>sample_size\<close> is \<^verbatim>\<open>sum(list(x.values()))\<close>. \<open>below x v\<close> is the total count of the keys
  smaller than \<open>v\<close>, so \<open>cursor_at x v\<close> is the value of the rank cursor \<^verbatim>\<open>r\<close> when the
  loop of \<^verbatim>\<open>rank_count_data\<close>, which starts at 1 and walks the keys in ascending order,
  reaches \<open>v\<close>. \<open>spans\<close> lists the pairs \<^verbatim>\<open>(r, r + x[v] - 1)\<close> that the loop stores.
\<close>

definition sample_size :: "'k count_data_t \<Rightarrow> int" where
  "sample_size x = sum_list (map snd x)"

definition below :: "('k::linorder) count_data_t \<Rightarrow> 'k \<Rightarrow> int" where
  "below x v = sum_list (map snd (filter (\<lambda>(u, c). u < v) x))"

definition cursor_at :: "('k::linorder) count_data_t \<Rightarrow> 'k \<Rightarrow> int" where
  "cursor_at x v = 1 + below x v"

text \<open>\<open>midrank x v\<close> is the midpoint of the span of \<open>v\<close>: the cursor at \<open>v\<close> and the cursor
  plus the count of \<open>v\<close> minus 1.\<close>

definition midrank :: "('k::linorder) count_data_t \<Rightarrow> 'k \<Rightarrow> real" where
  "midrank x v = real_of_int (cursor_at x v + (cursor_at x v + dict_get x v 0 - 1)) / 2"

fun spans :: "'k count_data_t \<Rightarrow> int \<Rightarrow> 'k list \<Rightarrow> ('k \<times> int \<times> int) list" where
  "spans x r [] = []"
| "spans x r (v # vs) =
     (v, (r, r + dict_get x v 0 - 1)) # spans x (r + dict_get x v 0) vs"

text \<open>The count data that lines 169 to 219 work on: under the policy omit the entries
  with a NaN key are left out, under the other two policies nothing is.\<close>

definition after_policy :: "nan_policy \<Rightarrow> value_t count_data_t \<Rightarrow> value_t count_data_t" where
  "after_policy nan_policy x =
     (if nan_policy = Omit then filter (\<lambda>(v, c). v \<noteq> Nan) x else x)"

text \<open>Two functions to stand for the cumulative distribution functions in closed
  statements whose result does not depend on them.\<close>

definition some_t_cdf :: "npfloat \<Rightarrow> npfloat \<Rightarrow> npfloat" where
  "some_t_cdf w df = Fin (1 / 2)"

definition some_norm_cdf :: "npfloat \<Rightarrow> npfloat" where
  "some_norm_cdf w = Fin (1 / 2)"

section \<open>Evaluation lemmas\<close>

lemma bind_err_simps [simp]:
  "bind_err (Inl e) f = Inl e"
  "bind_err (Inr a) f = f a"
  by (simp_all add: bind_err_def)

text \<open>An int below \<open>2 ^ 53\<close> in absolute value has at most 53 bits: its half is a binary64
  number and the division is exact.\<close>

lemma int_truediv_2_exact:
  assumes "\<bar>a\<bar> < 2 ^ 53"
  shows "int_truediv_2 a = Inr (real_of_int a / 2)"
proof -
  have "bitlen \<bar>a\<bar> \<le> 53" using assms by (simp add: bitlen_le_iff_power)
  then have "round_to_53_bits \<bar>a\<bar> = \<bar>a\<bar>" by (simp add: round_to_53_bits_def)
  moreover have "\<bar>a\<bar> < 2 ^ 1025"
    using assms by (rule less_trans) simp
  moreover have "sgn a * \<bar>a\<bar> = a" by (simp add: sgn_if)
  ultimately show ?thesis by (simp add: int_truediv_2_def)
qed

lemma bitlen_above_2_53: "bitlen 9007199254740995 = 54"
  by code_simp

lemma int_truediv_2_rounds: "int_truediv_2 9007199254740995 = Inr 4503599627370498"
  by (simp add: int_truediv_2_def round_to_53_bits_def bitlen_above_2_53)

lemma rank_above_2_53:
  "rank_count_data [(0::real, 9007199254740994)] ''average'' = Inr [(0, 4503599627370498)]"
  by (simp add: rank_count_data_def str_in_def getitem_def int_truediv_2_rounds)

lemmas bm_eval_defs =
  brunnermunzel_from_count_data_def contains_nan_def finite_keys_def bm_core_def
  bm_moments_def rank_count_data_def str_in_def join_count_data_def join_step_def
  dict_get_def getitem_def rank_mean_def dispersion_def py_truediv_def int_truediv_2_exact

section \<open>Ranks in closed form\<close>

lemma update_fresh: "k \<notin> fst ` set al \<Longrightarrow> AList.update k v al = al @ [(k, v)]"
  by (induction al) auto

lemma getitem_dict_get: "v \<in> fst ` set x \<Longrightarrow> getitem x v = Inr (dict_get x v dflt)"
  by (auto simp: getitem_def dict_get_def split: option.splits simp: map_of_eq_None_iff)

lemma dict_get_absent: "v \<notin> fst ` set x \<Longrightarrow> dict_get x v dflt = dflt"
  by (simp add: dict_get_def map_of_eq_None_iff[THEN iffD2])

lemma dict_get_present: "distinct (map fst x) \<Longrightarrow> (v, c) \<in> set x \<Longrightarrow> dict_get x v dflt = c"
  by (simp add: dict_get_def)

lemma map_fst_spans [simp]: "map fst (spans x r vs) = vs"
  by (induction vs arbitrary: r) auto

lemma minmaxranks_loop_spans:
  "set vs \<subseteq> fst ` set x \<Longrightarrow> distinct vs \<Longrightarrow> set vs \<inter> fst ` set mm = {}
   \<Longrightarrow> minmaxranks_loop x vs r mm = Inr (mm @ spans x r vs)"
proof (induction vs arbitrary: r mm)
  case Nil
  then show ?case by simp
next
  case (Cons v vs)
  have g: "getitem x v = Inr (dict_get x v 0)"
    using Cons.prems(1) by (simp add: getitem_dict_get)
  have u: "AList.update v (r, r + dict_get x v 0 - 1) mm = mm @ [(v, (r, r + dict_get x v 0 - 1))]"
    using Cons.prems(3) by (simp add: update_fresh)
  have "minmaxranks_loop x vs (r + dict_get x v 0) (mm @ [(v, (r, r + dict_get x v 0 - 1))])
        = Inr ((mm @ [(v, (r, r + dict_get x v 0 - 1))]) @ spans x (r + dict_get x v 0) vs)"
    using Cons.prems by (intro Cons.IH) auto
  then show ?case by (simp add: g u)
qed

lemma str_in_average [simp]: "str_in ''average'' ''average''"
  by (simp add: str_in_def)

lemma rank_count_data_loop:
  assumes "distinct (map fst x)"
  shows "rank_count_data x ''average'' = average_ranks (spans x 1 (sort (map fst x)))"
proof -
  have "minmaxranks_loop x (sort (map fst x)) 1 [] = Inr ([] @ spans x 1 (sort (map fst x)))"
    using assms by (intro minmaxranks_loop_spans) auto
  then show ?thesis by (simp add: rank_count_data_def)
qed

lemma average_ranks_exact:
  "(\<And>v a b. (v, (a, b)) \<in> set ps \<Longrightarrow> \<bar>a + b\<bar> < 2 ^ 53) \<Longrightarrow>
   average_ranks ps = Inr (map (\<lambda>(v, (a, b)). (v, real_of_int (a + b) / 2)) ps)"
proof (induction ps)
  case Nil
  then show ?case by simp
next
  case (Cons p ps)
  obtain v a b where p: "p = (v, (a, b))" by (cases p) auto
  have "\<bar>a + b\<bar> < 2 ^ 53" using Cons.prems[of v a b] by (simp add: p)
  then have "int_truediv_2 (a + b) = Inr (real_of_int (a + b) / 2)"
    by (rule int_truediv_2_exact)
  moreover have "average_ranks ps = Inr (map (\<lambda>(v, (a, b)). (v, real_of_int (a + b) / 2)) ps)"
    using Cons.prems by (intro Cons.IH) auto
  ultimately show ?case by (simp add: p)
qed

lemma map_of_spans:
  "sorted vs \<Longrightarrow> distinct vs \<Longrightarrow> v \<in> set vs \<Longrightarrow>
   map_of (spans x r vs) v =
     Some (r + (\<Sum>u\<leftarrow>filter (\<lambda>u. u < v) vs. dict_get x u 0),
           r + (\<Sum>u\<leftarrow>filter (\<lambda>u. u < v) vs. dict_get x u 0) + dict_get x v 0 - 1)"
proof (induction vs arbitrary: r)
  case Nil
  then show ?case by simp
next
  case (Cons w vs)
  show ?case
  proof (cases "v = w")
    case True
    have "filter (\<lambda>u. u < w) vs = []"
      using Cons.prems(1) by (auto simp: filter_empty_conv)
    then show ?thesis using True by simp
  next
    case False
    then have v: "v \<in> set vs" using Cons.prems(3) by simp
    then have "w < v" using Cons.prems(1,2) False by (auto simp: less_le)
    moreover have "map_of (spans x (r + dict_get x w 0) vs) v =
       Some (r + dict_get x w 0 + (\<Sum>u\<leftarrow>filter (\<lambda>u. u < v) vs. dict_get x u 0),
       r + dict_get x w 0 + (\<Sum>u\<leftarrow>filter (\<lambda>u. u < v) vs. dict_get x u 0) + dict_get x v 0 - 1)"
      using Cons.prems v by (intro Cons.IH) auto
    ultimately show ?thesis using False by (simp add: add.assoc)
  qed
qed

lemma sum_list_alist_keys:
  "distinct (map fst x) \<Longrightarrow> (\<Sum>(v, c)\<leftarrow>x. f v c) = (\<Sum>v\<in>fst ` set x. f v (dict_get x v d))"
proof (induction x)
  case Nil
  then show ?case by simp
next
  case (Cons p x)
  obtain k c where p: "p = (k, c)" by (cases p)
  have fresh: "k \<notin> fst ` set x" using Cons.prems p by auto
  have "(\<Sum>v\<in>fst ` set x. f v (dict_get ((k, c) # x) v d)) = (\<Sum>v\<in>fst ` set x. f v (dict_get x v d))"
    using fresh by (intro sum.cong) (auto simp: dict_get_def)
  moreover have "(\<Sum>(v, c)\<leftarrow>x. f v c) = (\<Sum>v\<in>fst ` set x. f v (dict_get x v d))"
    using Cons by simp
  ultimately show ?case using fresh by (simp add: p dict_get_def)
qed

lemma below_keys:
  assumes "distinct (map fst x)"
  shows "below x v = (\<Sum>u\<in>{u \<in> fst ` set x. u < v}. dict_get x u 0)"
proof -
  have "below x v = (\<Sum>(u, c)\<leftarrow>x. if u < v then c else 0)"
    unfolding below_def by (induction x) auto
  also have "\<dots> = (\<Sum>u\<in>fst ` set x. if u < v then dict_get x u 0 else 0)"
    using assms by (rule sum_list_alist_keys)
  also have "\<dots> = (\<Sum>u\<in>{u \<in> fst ` set x. u < v}. dict_get x u 0)"
    by (simp add: sum.If_cases Int_def)
  finally show ?thesis .
qed

lemma sorted_below:
  assumes "distinct (map fst x)"
  shows "(\<Sum>u\<leftarrow>filter (\<lambda>u. u < v) (sort (map fst x)). dict_get x u 0) = below x v"
proof -
  have "distinct (filter (\<lambda>u. u < v) (sort (map fst x)))" using assms by simp
  then have "(\<Sum>u\<leftarrow>filter (\<lambda>u. u < v) (sort (map fst x)). dict_get x u 0)
     = (\<Sum>u\<in>set (filter (\<lambda>u. u < v) (sort (map fst x))). dict_get x u 0)"
    by (rule sum_list_distinct_conv_sum_set)
  also have "set (filter (\<lambda>u. u < v) (sort (map fst x))) = {u \<in> fst ` set x. u < v}" by auto
  finally show ?thesis using below_keys[OF assms] by simp
qed

lemma sample_size_keys:
  assumes "distinct (map fst x)"
  shows "sample_size x = (\<Sum>v\<in>fst ` set x. dict_get x v 0)"
  unfolding sample_size_def
  using sum_list_alist_keys[OF assms, of "\<lambda>v c. c" 0] by (simp add: case_prod_unfold)

lemma dict_get_nonneg:
  assumes "distinct (map fst x)" "\<forall>c \<in> snd ` set x. 0 \<le> c"
  shows "0 \<le> dict_get x v (0::int)"
proof (cases "v \<in> fst ` set x")
  case True
  then obtain c where c: "(v, c) \<in> set x" by auto
  then have "dict_get x v 0 = c" using assms(1) by (intro dict_get_present)
  moreover have "0 \<le> c" using assms(2) c by force
  ultimately show ?thesis by simp
next
  case False
  then show ?thesis by (simp add: dict_get_absent)
qed

lemma below_count_le:
  assumes "distinct (map fst x)" "\<forall>c \<in> snd ` set x. 0 \<le> c"
  shows "0 \<le> below x v" and "below x v + dict_get x v 0 \<le> sample_size x"
proof -
  let ?K = "fst ` set x" and ?d = "\<lambda>u. dict_get x u (0::int)"
  have d: "0 \<le> ?d u" for u by (rule dict_get_nonneg[OF assms])
  have b: "below x v = (\<Sum>u\<in>{u \<in> ?K. u < v}. ?d u)" by (rule below_keys[OF assms(1)])
  show "0 \<le> below x v" unfolding b by (intro sum_nonneg d)
  show "below x v + dict_get x v 0 \<le> sample_size x"
  proof (cases "v \<in> ?K")
    case True
    have "below x v + ?d v = (\<Sum>u\<in>insert v {u \<in> ?K. u < v}. ?d u)"
      unfolding b by simp
    also have "\<dots> \<le> (\<Sum>u\<in>?K. ?d u)"
      using True by (intro sum_mono2) (auto simp: d)
    finally show ?thesis by (simp only: sample_size_keys[OF assms(1)])
  next
    case False
    have "below x v \<le> (\<Sum>u\<in>?K. ?d u)"
      unfolding b by (intro sum_mono2) (auto simp: d)
    then show ?thesis using False
      by (simp add: dict_get_absent sample_size_keys[OF assms(1)])
  qed
qed

lemma spans_sorted_keys:
  assumes "distinct (map fst x)" "(v, (a, b)) \<in> set (spans x 1 (sort (map fst x)))"
  shows "a = cursor_at x v" and "b = cursor_at x v + dict_get x v 0 - 1"
proof -
  let ?vs = "sort (map fst x)"
  have v: "v \<in> set ?vs"
    using assms(2) by (metis map_fst_spans fst_conv image_eqI list.set_map)
  have "distinct (map fst (spans x 1 ?vs))" using assms(1) by simp
  then have "map_of (spans x 1 ?vs) v = Some (a, b)"
    using assms(2) by (rule map_of_is_SomeI)
  moreover have "map_of (spans x 1 ?vs) v =
     Some (1 + (\<Sum>u\<leftarrow>filter (\<lambda>u. u < v) ?vs. dict_get x u 0),
           1 + (\<Sum>u\<leftarrow>filter (\<lambda>u. u < v) ?vs. dict_get x u 0) + dict_get x v 0 - 1)"
    using assms(1) v by (intro map_of_spans) auto
  ultimately show "a = cursor_at x v" and "b = cursor_at x v + dict_get x v 0 - 1"
    by (simp_all add: sorted_below[OF assms(1)] cursor_at_def)
qed

lemma spans_in_range:
  assumes "distinct (map fst x)" "\<forall>c \<in> snd ` set x. 0 \<le> c" "sample_size x < 2 ^ 52"
    and "(v, (a, b)) \<in> set (spans x 1 (sort (map fst x)))"
  shows "\<bar>a + b\<bar> < 2 ^ 53"
proof -
  have ab: "a + b = 1 + 2 * below x v + dict_get x v 0"
    using spans_sorted_keys[OF assms(1,4)] by (simp add: cursor_at_def)
  have "0 \<le> below x v" "below x v + dict_get x v 0 \<le> sample_size x"
    by (rule below_count_le[OF assms(1,2)])+
  moreover have "0 \<le> dict_get x v 0" by (rule dict_get_nonneg[OF assms(1,2)])
  ultimately have "0 \<le> a + b" "a + b \<le> 1 + 2 * sample_size x"
    unfolding ab by linarith+
  then show ?thesis using assms(3) by simp
qed

text \<open>Below \<open>2 ^ 52\<close> observations every division of \<^verbatim>\<open>rank_count_data\<close> is exact.\<close>

lemma rank_count_data_spans:
  assumes "distinct (map fst x)" "\<forall>c \<in> snd ` set x. 0 \<le> c" "sample_size x < 2 ^ 52"
  shows "rank_count_data x ''average'' =
         Inr (map (\<lambda>(v, (a, b)). (v, real_of_int (a + b) / 2)) (spans x 1 (sort (map fst x))))"
  unfolding rank_count_data_loop[OF assms(1)]
  by (rule average_ranks_exact) (rule spans_in_range[OF assms])

lemma map_of_ranks:
  assumes "distinct (map fst x)" "v \<in> fst ` set x"
  shows "map_of (map (\<lambda>(v, (a, b)). (v, real_of_int (a + b) / 2)) (spans x 1 (sort (map fst x)))) v
         = Some (midrank x v)"
proof -
  have "map_of (spans x 1 (sort (map fst x))) v =
     Some (1 + (\<Sum>u\<leftarrow>filter (\<lambda>u. u < v) (sort (map fst x)). dict_get x u 0),
           1 + (\<Sum>u\<leftarrow>filter (\<lambda>u. u < v) (sort (map fst x)). dict_get x u 0) + dict_get x v 0 - 1)"
    using assms by (intro map_of_spans) auto
  then have "map_of (spans x 1 (sort (map fst x))) v
     = Some (cursor_at x v, cursor_at x v + dict_get x v 0 - 1)"
    by (simp add: sorted_below[OF assms(1)] cursor_at_def)
  moreover have "map_of (map (\<lambda>(v, (a, b)). (v, real_of_int (a + b) / 2)) ps) v
     = map_option (\<lambda>(a, b). real_of_int (a + b) / 2) (map_of ps v)" for ps :: "('a \<times> int \<times> int) list"
    by (induction ps) auto
  ultimately show ?thesis by (simp add: midrank_def add.assoc)
qed

section \<open>The joined count data\<close>

lemma dict_get_update:
  "dict_get (AList.update k w d) v dflt = (if v = k then w else dict_get d v dflt)"
  by (simp add: dict_get_def update_conv')

lemma keys_join_step: "fst ` set (join_step p ret) = insert (fst p) (fst ` set ret)"
  by (cases p) (simp add: join_step_def dom_update)

lemma keys_fold_join:
  "fst ` set (fold join_step y ret) = fst ` set ret \<union> fst ` set y"
  by (induction y arbitrary: ret) (simp_all add: keys_join_step)

lemma distinct_join_step: "distinct (map fst ret) \<Longrightarrow> distinct (map fst (join_step p ret))"
  by (cases p) (simp add: join_step_def distinct_update)

lemma distinct_fold_join:
  "distinct (map fst ret) \<Longrightarrow> distinct (map fst (fold join_step y ret))"
  by (induction y arbitrary: ret) (simp_all add: distinct_join_step)

lemma dict_get_fold_join:
  "distinct (map fst y) \<Longrightarrow>
   dict_get (fold join_step y ret) v 0 = dict_get ret v 0 + dict_get y v 0"
proof (induction y arbitrary: ret)
  case Nil
  then show ?case by (simp add: dict_get_def)
next
  case (Cons p y)
  obtain k c where p: "p = (k, c)" by (cases p)
  have fresh: "k \<notin> fst ` set y" using Cons.prems p by auto
  have "dict_get (fold join_step y (join_step (k, c) ret)) v 0
        = dict_get (join_step (k, c) ret) v 0 + dict_get y v 0"
    using Cons.prems by (intro Cons.IH) simp
  moreover have "dict_get (join_step (k, c) ret) v 0
        = (if v = k then dict_get ret k 0 + c else dict_get ret v 0)"
    by (simp add: join_step_def dict_get_update)
  moreover have "dict_get ((k, c) # y) v 0 = (if v = k then c else dict_get y v 0)"
    by (simp add: dict_get_def)
  moreover have "dict_get y k 0 = 0" using fresh by (rule dict_get_absent)
  ultimately show ?case by (simp add: p)
qed

lemma join_two: "join_count_data [x, y] = fold join_step y (fold join_step x [])"
  by (simp add: join_count_data_def)

lemma keys_join: "fst ` set (join_count_data [x, y]) = fst ` set x \<union> fst ` set y"
  by (simp add: join_two keys_fold_join)

lemma distinct_join: "distinct (map fst (join_count_data [x, y]))"
  by (simp add: join_two distinct_fold_join)

lemma dict_get_join:
  "distinct (map fst x) \<Longrightarrow> distinct (map fst y) \<Longrightarrow>
   dict_get (join_count_data [x, y]) v 0 = dict_get x v 0 + dict_get y v 0"
proof -
  assume dx: "distinct (map fst x)" and dy: "distinct (map fst y)"
  have "dict_get (fold join_step x []) v 0 = dict_get [] v 0 + dict_get x v 0"
    using dx by (rule dict_get_fold_join)
  moreover have "dict_get [] v (0::int) = 0" by (simp add: dict_get_def)
  ultimately show ?thesis
    unfolding join_two using dict_get_fold_join[OF dy, of "fold join_step x []" v] by simp
qed

lemma spans_cong:
  "(\<And>v. v \<in> set vs \<Longrightarrow> dict_get z v 0 = dict_get z' v 0) \<Longrightarrow> spans z r vs = spans z' r vs"
  by (induction vs arbitrary: r) simp_all

lemma rank_join_commute:
  assumes "distinct (map fst x)" "distinct (map fst y)"
  shows "rank_count_data (join_count_data [y, x]) ''average''
         = rank_count_data (join_count_data [x, y]) ''average''"
proof -
  let ?j = "join_count_data [x, y]" and ?j' = "join_count_data [y, x]"
  have "set (sort (map fst ?j')) = set (sort (map fst ?j))"
    by (simp add: keys_join Un_commute)
  moreover have "distinct (sort (map fst ?j'))" "distinct (sort (map fst ?j))"
    by (simp_all add: distinct_join)
  ultimately have keys: "sort (map fst ?j') = sort (map fst ?j)"
    by (intro sorted_distinct_set_unique) simp_all
  have "spans ?j' 1 (sort (map fst ?j)) = spans ?j 1 (sort (map fst ?j))"
    by (rule spans_cong) (simp add: dict_get_join assms)
  then show ?thesis
    by (simp add: rank_count_data_loop distinct_join keys)
qed

subsection \<open>The sum of the ranks\<close>

lemma rank_count_data_lookup:
  assumes "distinct (map fst x)" "\<forall>c \<in> snd ` set x. 0 \<le> c" "sample_size x < 2 ^ 52"
  shows "\<exists>rk. rank_count_data x ''average'' = Inr rk \<and> map fst rk = sort (map fst x)
           \<and> (\<forall>v\<in>fst ` set x. map_of rk v = Some (midrank x v))"
proof -
  let ?rk = "map (\<lambda>(v, (a, b)). (v, real_of_int (a + b) / 2)) (spans x 1 (sort (map fst x)))"
  have "map fst ?rk = map fst (spans x 1 (sort (map fst x)))"
    by (simp add: case_prod_unfold comp_def)
  then have "map fst ?rk = sort (map fst x)" by simp
  then show ?thesis
    using rank_count_data_spans[OF assms] map_of_ranks[OF assms(1)] by blast
qed

lemma span_sum:
  fixes d :: "'k::linorder \<Rightarrow> int"
  assumes "finite K"
  shows "(\<Sum>v\<in>K. (2 * (1 + (\<Sum>u\<in>{u \<in> K. u < v}. d u)) + d v - 1) * d v)
         = (\<Sum>v\<in>K. d v) * ((\<Sum>v\<in>K. d v) + 1)"
  using assms
proof (induction K rule: finite_linorder_max_induct)
  case empty
  then show ?case by simp
next
  case (insert m K)
  have m: "m \<notin> K" using insert.hyps(2) by auto
  have top: "{u \<in> insert m K. u < m} = K" using insert.hyps(2) by auto
  have rest: "{u \<in> insert m K. u < v} = {u \<in> K. u < v}" if "v \<in> K" for v
    using insert.hyps(2) that by (auto simp: less_le_not_le dest: order.strict_trans)
  let ?f = "\<lambda>A v. (2 * (1 + (\<Sum>u\<in>{u \<in> A. u < v}. d u)) + d v - 1) * d v"
  have "(\<Sum>v\<in>K. ?f (insert m K) v) = (\<Sum>v\<in>K. ?f K v)"
  proof (rule sum.cong)
    fix v assume "v \<in> K"
    then show "?f (insert m K) v = ?f K v" by (simp only: rest)
  qed simp
  then have tail: "(\<Sum>v\<in>K. ?f (insert m K) v) = sum d K * (sum d K + 1)"
    using insert.IH by simp
  have head: "?f (insert m K) m = (2 * (1 + sum d K) + d m - 1) * d m"
    by (simp only: top)
  have "(\<Sum>v\<in>insert m K. ?f (insert m K) v) = ?f (insert m K) m + (\<Sum>v\<in>K. ?f (insert m K) v)"
    using insert.hyps(1) m by (rule sum.insert)
  also have "\<dots> = (2 * (1 + sum d K) + d m - 1) * d m + sum d K * (sum d K + 1)"
    by (simp only: head tail)
  also have "\<dots> = (d m + sum d K) * ((d m + sum d K) + 1)"
    by (simp add: algebra_simps)
  also have "d m + sum d K = sum d (insert m K)"
    using insert.hyps(1) m by simp
  finally show ?case .
qed

lemma weighted_rank_sum:
  assumes "distinct (map fst x)"
  shows "(\<Sum>(v, c)\<leftarrow>x. midrank x v * real_of_int c)
         = real_of_int (sample_size x * (sample_size x + 1)) / 2"
proof -
  let ?K = "fst ` set x" and ?d = "\<lambda>v. dict_get x v 0"
  have n: "sample_size x = (\<Sum>v\<in>?K. ?d v)"
    unfolding sample_size_def
    using sum_list_alist_keys[OF assms, of "\<lambda>v c. c" 0] by (simp add: case_prod_unfold)
  have "(\<Sum>(v, c)\<leftarrow>x. midrank x v * real_of_int c)
        = (\<Sum>v\<in>?K. midrank x v * real_of_int (?d v))"
    using assms by (rule sum_list_alist_keys)
  also have "\<dots> = (\<Sum>v\<in>?K. real_of_int ((2 * (1 + (\<Sum>u\<in>{u \<in> ?K. u < v}. ?d u)) + ?d v - 1) * ?d v) / 2)"
    by (intro sum.cong) (simp_all add: midrank_def cursor_at_def below_keys[OF assms])
  also have "\<dots> = real_of_int (\<Sum>v\<in>?K. (2 * (1 + (\<Sum>u\<in>{u \<in> ?K. u < v}. ?d u)) + ?d v - 1) * ?d v) / 2"
    by (simp add: sum_divide_distrib)
  also have "\<dots> = real_of_int (sample_size x * (sample_size x + 1)) / 2"
    using span_sum[of ?K ?d] by (simp add: n)
  finally show ?thesis .
qed

subsection \<open>Entries with count 0\<close>

lemma below_zero_entry: "below (xs @ (k, 0) # ys) v = below (xs @ ys) v"
  by (simp add: below_def)

lemma sample_size_zero_entry: "sample_size (xs @ (k, 0) # ys) = sample_size (xs @ ys)"
  by (simp add: sample_size_def)

lemma dict_get_zero_entry:
  assumes "k \<notin> fst ` set (xs @ ys)"
  shows "dict_get (xs @ (k, 0) # ys) v 0 = dict_get (xs @ ys) v (0::int)"
proof (cases "v = k")
  case True
  have "k \<notin> fst ` set xs" using assms by (simp add: image_Un)
  then have "map_of xs k = None" by (simp add: map_of_eq_None_iff)
  then have "dict_get (xs @ (k, 0) # ys) k 0 = (0::int)"
    by (simp add: dict_get_def map_add_def)
  then show ?thesis using True dict_get_absent[OF assms] by simp
next
  case False
  then have "map_of (xs @ (k, 0) # ys) v = map_of (xs @ ys) v"
    by (simp add: map_add_def split: option.splits)
  then show ?thesis by (simp only: dict_get_def)
qed

lemma midrank_zero_entry:
  assumes "k \<notin> fst ` set (xs @ ys)"
  shows "midrank (xs @ (k, 0) # ys) = midrank (xs @ ys)"
  by (rule ext) (simp add: midrank_def cursor_at_def below_zero_entry dict_get_zero_entry[OF assms])

lemma ranks_absent:
  assumes "rank_count_data x ''average'' = Inr rk" "map fst rk = sort (map fst x)"
    "v \<notin> fst ` set x"
  shows "map_of rk v = None"
proof -
  have "v \<notin> set (map fst rk)" using assms(2,3) by simp
  then show ?thesis by (simp add: map_of_eq_None_iff)
qed

lemma spans_all_zero:
  "(\<And>v. v \<in> set vs \<Longrightarrow> dict_get x v 0 = 0) \<Longrightarrow> spans x r vs = map (\<lambda>v. (v, (r, r - 1))) vs"
  by (induction vs arbitrary: r) simp_all

subsection \<open>The checks of lines 155 to 167\<close>

lemma finite_keys_append [simp]: "finite_keys (xs @ ys) = finite_keys xs @ finite_keys ys"
  by (simp add: finite_keys_def)

lemma finite_keys_Cons_Val [simp]: "finite_keys ((Val a, c) # x) = (a, c) # finite_keys x"
  by (simp add: finite_keys_def)

lemma finite_keys_Cons_Nan [simp]: "finite_keys ((Nan, c) # x) = finite_keys x"
  by (simp add: finite_keys_def)

lemma finite_keys_Nil [simp]: "finite_keys [] = []"
  by (simp add: finite_keys_def)

lemma finite_keys_filter: "finite_keys (filter (\<lambda>(v, c). v \<noteq> Nan) x) = finite_keys x"
proof (induction x)
  case Nil
  then show ?case by simp
next
  case (Cons p x)
  obtain v c where p: "p = (v, c)" by (cases p)
  show ?case using Cons by (cases v) (simp_all add: p)
qed

lemma keys_finite_keys: "fst ` set (finite_keys x) = {a. Val a \<in> fst ` set x}"
proof (induction x)
  case Nil
  then show ?case by simp
next
  case (Cons p x)
  obtain v c where p: "p = (v, c)" by (cases p)
  show ?case using Cons by (cases v) (auto simp: p)
qed

lemma distinct_finite_keys: "distinct (map fst x) \<Longrightarrow> distinct (map fst (finite_keys x))"
proof (induction x)
  case Nil
  then show ?case by simp
next
  case (Cons p x)
  obtain v c where p: "p = (v, c)" by (cases p)
  show ?case
  proof (cases v)
    case (Val a)
    have "a \<notin> fst ` set (finite_keys x)"
      using Cons.prems by (simp add: keys_finite_keys p Val)
    then show ?thesis using Cons by (simp add: p Val)
  next
    case Nan
    then show ?thesis using Cons by (simp add: p)
  qed
qed

lemma sample_size_finite_keys:
  "sample_size (finite_keys x) = sample_size (filter (\<lambda>(v, c). v \<noteq> Nan) x)"
proof (induction x)
  case Nil
  then show ?case by (simp add: sample_size_def)
next
  case (Cons p x)
  obtain v c where p: "p = (v, c)" by (cases p)
  show ?case using Cons by (cases v) (simp_all add: p sample_size_def)
qed

lemma filter_no_nan: "Nan \<notin> fst ` set x \<Longrightarrow> filter (\<lambda>(v, c). v \<noteq> Nan) x = x"
  by (induction x) auto

lemma negative_check:
  "([c \<leftarrow> map snd x. c < 0] \<noteq> [] \<or> [c \<leftarrow> map snd y. c < (0::int)] \<noteq> [])
   \<longleftrightarrow> ((\<exists>c \<in> snd ` set x. c < 0) \<or> (\<exists>c \<in> snd ` set y. c < 0))"
  by (auto simp: filter_empty_conv)

lemma bm_top:
  "brunnermunzel_from_count_data t_cdf norm_cdf x y alternative distribution nan_policy =
     (if (\<exists>c \<in> snd ` set x. c < 0) \<or> (\<exists>c \<in> snd ` set y. c < 0)
      then Inl (ValueError ''The input contains negative counts'')
      else if Nan \<in> fst ` set x \<union> fst ` set y \<and> nan_policy = Raise
      then Inl (ValueError ''The input contains nan values'')
      else if Nan \<in> fst ` set x \<union> fst ` set y \<and> nan_policy = Propagate
      then Inr \<lparr>statistic = NaN, pvalue = NaN\<rparr>
      else bm_core t_cdf norm_cdf (finite_keys x) (finite_keys y) alternative distribution)"
proof -
  consider (neg) "(\<exists>c \<in> snd ` set x. c < 0) \<or> (\<exists>c \<in> snd ` set y. c < 0)"
    | (ok) "\<not> ((\<exists>c \<in> snd ` set x. c < 0) \<or> (\<exists>c \<in> snd ` set y. c < 0))" by blast
  then show ?thesis
  proof cases
    case neg
    then have "[c \<leftarrow> map snd x. c < 0] \<noteq> [] \<or> [c \<leftarrow> map snd y. c < 0] \<noteq> []"
      using negative_check[of x y] by blast
    then have "brunnermunzel_from_count_data t_cdf norm_cdf x y alternative distribution nan_policy
               = Inl (ValueError ''The input contains negative counts'')"
      unfolding brunnermunzel_from_count_data_def by (simp only: if_True)
    then show ?thesis using neg by (simp only: if_True)
  next
    case ok
    then have chk: "\<not> ([c \<leftarrow> map snd x. c < 0] \<noteq> [] \<or> [c \<leftarrow> map snd y. c < 0] \<noteq> [])"
      using negative_check[of x y] by blast
    have rest: "brunnermunzel_from_count_data t_cdf norm_cdf x y alternative distribution nan_policy =
        bind_err (contains_nan (map fst x) nan_policy) (\<lambda>(cnx, npx).
        bind_err (contains_nan (map fst y) nan_policy) (\<lambda>(cny, npy).
          (let contains = (cnx \<or> cny);
               policy = (if npx = Omit \<or> npy = Omit then Omit else nan_policy)
           in if contains \<and> policy = Propagate then Inr \<lparr>statistic = NaN, pvalue = NaN\<rparr>
              else (let x' = (if contains \<and> policy = Omit
                              then filter (\<lambda>(v, c). v \<noteq> Nan) x else x);
                        y' = (if contains \<and> policy = Omit
                              then filter (\<lambda>(v, c). v \<noteq> Nan) y else y)
                    in bm_core t_cdf norm_cdf (finite_keys x') (finite_keys y')
                         alternative distribution))))"
      unfolding brunnermunzel_from_count_data_def using chk by (simp only: if_False simp_thms)
    show ?thesis
      unfolding rest using ok
      by (cases nan_policy; cases "Nan \<in> fst ` set x"; cases "Nan \<in> fst ` set y")
         (simp_all add: contains_nan_def finite_keys_filter)
  qed
qed

lemma set_finite_keys: "set (finite_keys x) = {(a, c). (Val a, c) \<in> set x}"
proof (induction x)
  case Nil
  then show ?case by simp
next
  case (Cons p x)
  obtain v c where p: "p = (v, c)" by (cases p)
  show ?case using Cons by (cases v) (auto simp: p)
qed

lemma counts_finite_keys: "\<forall>c \<in> snd ` set x. 0 \<le> c \<Longrightarrow> \<forall>c \<in> snd ` set (finite_keys x). (0::int) \<le> c"
  by (force simp: set_finite_keys)

lemma sample_size_no_nan: "Nan \<notin> fst ` set x \<Longrightarrow> sample_size (finite_keys x) = sample_size x"
  by (simp add: sample_size_finite_keys filter_no_nan)

subsection \<open>The two samples exchanged\<close>

lemma sum_comp_nonneg:
  "(\<And>v c t. (v, c) \<in> set x \<Longrightarrow> f v c = Inr t \<Longrightarrow> 0 \<le> t) \<Longrightarrow> sum_comp f x = Inr s \<Longrightarrow> 0 \<le> s"
proof (induction x arbitrary: s)
  case Nil
  then show ?case by simp
next
  case (Cons p x)
  obtain v c where p: "p = (v, c)" by (cases p)
  have eq: "sum_comp f ((v, c) # x) = Inr s" using Cons.prems(2) by (simp only: p)
  obtain t where t: "f v c = Inr t" using eq by (cases "f v c") simp_all
  obtain s' where s': "sum_comp f x = Inr s'" using eq t by (cases "sum_comp f x") simp_all
  have s: "s = t + s'" using eq t s' by simp
  have "0 \<le> t" using Cons.prems(1)[of v c t] t by (simp add: p)
  moreover have "0 \<le> s'"
  proof (rule Cons.IH[OF _ s'])
    fix v' c' t' assume "(v', c') \<in> set x" "f v' c' = Inr t'"
    then show "0 \<le> t'" using Cons.prems(1)[of v' c' t'] by simp
  qed
  ultimately show ?case by (simp add: s)
qed

lemma dispersion_nonneg:
  assumes "dispersion rankc rankx x a b n = Inr s" "\<forall>c \<in> snd ` set x. 0 \<le> c" "2 \<le> n"
  shows "0 \<le> s"
proof -
  let ?f = "\<lambda>v c. case getitem rankc v of Inl e \<Rightarrow> Inl e
     | Inr rc \<Rightarrow> (case getitem rankx v of Inl e \<Rightarrow> Inl e
        | Inr rx \<Rightarrow> Inr ((rc - rx - a + b)\<^sup>2 * real_of_int c))"
  have d: "(case sum_comp ?f x of Inl e \<Rightarrow> Inl e | Inr S \<Rightarrow> py_truediv S (n - 1)) = Inr s"
    using assms(1) by (simp only: dispersion_def)
  then obtain S where S: "sum_comp ?f x = Inr S" by (cases "sum_comp ?f x") simp_all
  have s: "s = S / real_of_int (n - 1)"
    using d assms(3) unfolding S by (simp add: py_truediv_def)
  have "0 \<le> S"
  proof (rule sum_comp_nonneg[OF _ S])
    fix v c t assume vc: "(v, c) \<in> set x" and t: "?f v c = Inr t"
    have c: "0 \<le> c" using assms(2) vc by force
    obtain rc where rc: "getitem rankc v = Inr rc" using t by (cases "getitem rankc v") simp_all
    obtain rx where rx: "getitem rankx v = Inr rx"
      using t rc by (cases "getitem rankx v") simp_all
    have "t = (rc - rx - a + b)\<^sup>2 * real_of_int c" using t rc rx by simp
    then show "0 \<le> t" using c by simp
  qed
  then show ?thesis using assms(3) by (simp add: s)
qed

lemma bind_errE:
  assumes "bind_err m f = Inr b"
  obtains a where "m = Inr a" "f a = Inr b"
  using assms by (cases m) simp_all

lemma bm_moments_parts:
  assumes "bm_moments x y nx ny = Inr m"
  shows "\<exists>rankc rankx ranky rankx_mean ranky_mean.
     rank_count_data (join_count_data [x, y]) ''average'' = Inr rankc
   \<and> rank_mean rankc x nx = Inr (rankcx_mean m)
   \<and> rank_mean rankc y ny = Inr (rankcy_mean m)
   \<and> rank_count_data x ''average'' = Inr rankx
   \<and> rank_count_data y ''average'' = Inr ranky
   \<and> rank_mean rankx x nx = Inr rankx_mean
   \<and> rank_mean ranky y ny = Inr ranky_mean
   \<and> dispersion rankc rankx x (rankcx_mean m) rankx_mean nx = Inr (Sx m)
   \<and> dispersion rankc ranky y (rankcy_mean m) ranky_mean ny = Inr (Sy m)"
  using assms unfolding bm_moments_def
proof (elim bind_errE)
  fix rankc cx cy rankx ranky mx my sx sy
  assume r: "rank_count_data (join_count_data [x, y]) ''average'' = Inr rankc"
    "rank_mean rankc x nx = Inr cx" "rank_mean rankc y ny = Inr cy"
    "rank_count_data x ''average'' = Inr rankx" "rank_count_data y ''average'' = Inr ranky"
    "rank_mean rankx x nx = Inr mx" "rank_mean ranky y ny = Inr my"
    "dispersion rankc rankx x cx mx nx = Inr sx" "dispersion rankc ranky y cy my ny = Inr sy"
    and m: "Inr \<lparr>rankcx_mean = cx, rankcy_mean = cy, Sx = sx, Sy = sy\<rparr> = (Inr m :: error + moments)"
  from m have "rankcx_mean m = cx" "rankcy_mean m = cy" "Sx m = sx" "Sy m = sy" by auto
  with r show ?thesis by blast
qed

lemma bm_moments_swap:
  assumes "distinct (map fst x)" "distinct (map fst y)" "bm_moments x y nx ny = Inr m"
  shows "bm_moments y x ny nx = Inr \<lparr>rankcx_mean = rankcy_mean m, rankcy_mean = rankcx_mean m,
                                     Sx = Sy m, Sy = Sx m\<rparr>"
proof -
  from bm_moments_parts[OF assms(3)] obtain rankc rankx ranky rankx_mean ranky_mean where
    r: "rank_count_data (join_count_data [x, y]) ''average'' = Inr rankc"
    "rank_mean rankc x nx = Inr (rankcx_mean m)"
    "rank_mean rankc y ny = Inr (rankcy_mean m)"
    "rank_count_data x ''average'' = Inr rankx"
    "rank_count_data y ''average'' = Inr ranky"
    "rank_mean rankx x nx = Inr rankx_mean"
    "rank_mean ranky y ny = Inr ranky_mean"
    "dispersion rankc rankx x (rankcx_mean m) rankx_mean nx = Inr (Sx m)"
    "dispersion rankc ranky y (rankcy_mean m) ranky_mean ny = Inr (Sy m)"
    by blast
  show ?thesis
    unfolding bm_moments_def rank_join_commute[OF assms(1,2)]
    by (simp only: r bind_err_simps)
qed

lemma bm_moments_nonneg:
  assumes "bm_moments x y nx ny = Inr m"
    "\<forall>c \<in> snd ` set x. 0 \<le> c" "\<forall>c \<in> snd ` set y. 0 \<le> c" "2 \<le> nx" "2 \<le> ny"
  shows "0 \<le> pooled nx ny m"
proof -
  from bm_moments_parts[OF assms(1)] obtain rankc rankx ranky rankx_mean ranky_mean where
    "dispersion rankc rankx x (rankcx_mean m) rankx_mean nx = Inr (Sx m)"
    "dispersion rankc ranky y (rankcy_mean m) ranky_mean ny = Inr (Sy m)"
    by blast
  then have "0 \<le> Sx m" "0 \<le> Sy m"
    using dispersion_nonneg[OF _ assms(2,4)] dispersion_nonneg[OF _ assms(3,5)] by blast+
  then show ?thesis using assms(4,5) by (simp add: pooled_def)
qed

lemma wbfn_swap:
  assumes "0 < pooled nx ny m" "0 < nx + ny"
  shows "\<exists>w. wbfn nx ny m = Fin w
           \<and> wbfn ny nx \<lparr>rankcx_mean = rankcy_mean m, rankcy_mean = rankcx_mean m,
                           Sx = Sy m, Sy = Sx m\<rparr> = Fin (- w)"
proof -
  let ?m' = "\<lparr>rankcx_mean = rankcy_mean m, rankcy_mean = rankcx_mean m, Sx = Sy m, Sy = Sx m\<rparr>"
  define A where "A = real_of_int (nx * ny) * (rankcy_mean m - rankcx_mean m)"
  define B where "B = real_of_int (nx + ny) * sqrt (pooled nx ny m)"
  have p': "pooled ny nx ?m' = pooled nx ny m" by (simp add: pooled_def)
  have B0: "B \<noteq> 0" using assms by (simp add: B_def)
  have sq: "np_sqrt (pooled nx ny m) = Fin (sqrt (pooled nx ny m))"
    using assms(1) by (simp add: np_sqrt_def)
  have A': "real_of_int (ny * nx) * (rankcy_mean ?m' - rankcx_mean ?m') = - A"
    by (simp add: A_def algebra_simps)
  have B': "real_of_int (ny + nx) * sqrt (pooled nx ny m) = B"
    by (simp add: B_def add.commute)
  have "wbfn nx ny m = np_div A (Fin B)"
    unfolding wbfn_def sq A_def B_def by simp
  then have w: "wbfn nx ny m = Fin (A / B)" using B0 by simp
  have "wbfn ny nx ?m' = np_div (- A) (Fin B)"
    unfolding wbfn_def p' sq A' np_mul.simps B' ..
  then have "wbfn ny nx ?m' = Fin (- (A / B))" using B0 by simp
  then show ?thesis using w by blast
qed

lemma bm_pvalue_returns:
  assumes "alternative \<in> {''two-sided'', ''less'', ''greater''}"
    "distribution \<in> {''t'', ''normal''}"
  shows "\<exists>p. bm_pvalue t_cdf norm_cdf nx ny m alternative distribution = Inr p"
  using assms by (auto simp: bm_pvalue_def Let_def)

text \<open>Below \<open>2 ^ 52\<close> observations in all, lines 173 to 194 raise nothing when both samples
  have at least two observations.\<close>

lemma sum_comp_Inr:
  "(\<And>v c. (v, c) \<in> set x \<Longrightarrow> f v c = Inr (g v c)) \<Longrightarrow> sum_comp f x = Inr (\<Sum>(v, c)\<leftarrow>x. g v c)"
  by (induction x) auto

lemma getitem_present: "map_of d k = Some v \<Longrightarrow> getitem d k = Inr v"
  by (simp add: getitem_def)

lemma rank_mean_returns:
  assumes "\<forall>v\<in>fst ` set x. \<exists>r. map_of rk v = Some r" "n \<noteq> 0"
  shows "\<exists>a. rank_mean rk x n = Inr a"
proof -
  define g where "g = (\<lambda>v (c::int). the (map_of rk v) * real_of_int c)"
  have "sum_comp (\<lambda>v c. case getitem rk v of Inl e \<Rightarrow> Inl e | Inr r \<Rightarrow> Inr (r * real_of_int c)) x
        = Inr (\<Sum>(v, c)\<leftarrow>x. g v c)"
  proof (rule sum_comp_Inr)
    fix v c assume "(v, c) \<in> set x"
    then have "v \<in> fst ` set x" by force
    then obtain r where r: "map_of rk v = Some r" using assms(1) by blast
    then show "(case getitem rk v of Inl e \<Rightarrow> Inl e | Inr r \<Rightarrow> Inr (r * real_of_int c)) = Inr (g v c)"
      by (simp add: getitem_present g_def)
  qed
  then show ?thesis using assms(2) by (simp add: rank_mean_def py_truediv_def)
qed

lemma dispersion_returns:
  assumes "\<forall>v\<in>fst ` set x. \<exists>r. map_of rkc v = Some r"
    "\<forall>v\<in>fst ` set x. \<exists>r. map_of rkx v = Some r" "n \<noteq> 1"
  shows "\<exists>s. dispersion rkc rkx x a b n = Inr s"
proof -
  define g where "g = (\<lambda>v (c::int).
     (the (map_of rkc v) - the (map_of rkx v) - a + b)\<^sup>2 * real_of_int c)"
  have "sum_comp (\<lambda>v c. case getitem rkc v of Inl e \<Rightarrow> Inl e
          | Inr rc \<Rightarrow> (case getitem rkx v of Inl e \<Rightarrow> Inl e
             | Inr rx \<Rightarrow> Inr ((rc - rx - a + b)\<^sup>2 * real_of_int c))) x
        = Inr (\<Sum>(v, c)\<leftarrow>x. g v c)"
  proof (rule sum_comp_Inr)
    fix v c assume "(v, c) \<in> set x"
    then have v: "v \<in> fst ` set x" by force
    obtain rc where rc: "map_of rkc v = Some rc" using assms(1) v by blast
    obtain rx where rx: "map_of rkx v = Some rx" using assms(2) v by blast
    show "(case getitem rkc v of Inl e \<Rightarrow> Inl e
          | Inr rc \<Rightarrow> (case getitem rkx v of Inl e \<Rightarrow> Inl e
             | Inr rx \<Rightarrow> Inr ((rc - rx - a + b)\<^sup>2 * real_of_int c))) = Inr (g v c)"
      by (simp add: getitem_present[OF rc] getitem_present[OF rx] g_def rc rx)
  qed
  then show ?thesis using assms(3) by (simp add: dispersion_def py_truediv_def)
qed

lemma counts_join:
  assumes "distinct (map fst x)" "distinct (map fst y)"
    "\<forall>c \<in> snd ` set x. 0 \<le> c" "\<forall>c \<in> snd ` set y. 0 \<le> c"
  shows "\<forall>c \<in> snd ` set (join_count_data [x, y]). 0 \<le> c"
proof
  fix c assume "c \<in> snd ` set (join_count_data [x, y])"
  then obtain v where "(v, c) \<in> set (join_count_data [x, y])" by auto
  then have "dict_get (join_count_data [x, y]) v 0 = c"
    using distinct_join by (intro dict_get_present)
  then have "c = dict_get x v 0 + dict_get y v 0"
    by (simp add: dict_get_join[OF assms(1,2)])
  then show "0 \<le> c"
    using dict_get_nonneg[OF assms(1,3), of v] dict_get_nonneg[OF assms(2,4), of v] by simp
qed

lemma sample_size_join:
  assumes "distinct (map fst x)" "distinct (map fst y)"
  shows "sample_size (join_count_data [x, y]) = sample_size x + sample_size y"
proof -
  let ?K = "fst ` set x \<union> fst ` set y"
  have x: "(\<Sum>v\<in>fst ` set x. dict_get x v 0) = (\<Sum>v\<in>?K. dict_get x v 0)"
    by (intro sum.mono_neutral_left) (auto intro: dict_get_absent)
  have y: "(\<Sum>v\<in>fst ` set y. dict_get y v 0) = (\<Sum>v\<in>?K. dict_get y v 0)"
    by (intro sum.mono_neutral_left) (auto intro: dict_get_absent)
  have "sample_size (join_count_data [x, y])
        = (\<Sum>v\<in>?K. dict_get (join_count_data [x, y]) v 0)"
    using sample_size_keys[OF distinct_join, of x y] by (simp add: keys_join)
  also have "\<dots> = (\<Sum>v\<in>?K. dict_get x v 0 + dict_get y v 0)"
    by (simp add: dict_get_join assms)
  also have "\<dots> = (\<Sum>v\<in>?K. dict_get x v 0) + (\<Sum>v\<in>?K. dict_get y v 0)"
    by (rule sum.distrib)
  finally show ?thesis
    by (simp add: sample_size_keys[OF assms(1)] sample_size_keys[OF assms(2)] x y)
qed

lemma sample_size_nonneg: "\<forall>c \<in> snd ` set x. 0 \<le> c \<Longrightarrow> 0 \<le> sample_size x"
  unfolding sample_size_def by (intro sum_list_nonneg) auto

lemma bm_moments_returns:
  assumes dx: "distinct (map fst x)" and dy: "distinct (map fst y)"
    and cx: "\<forall>c \<in> snd ` set x. 0 \<le> c" and cy: "\<forall>c \<in> snd ` set y. 0 \<le> c"
    and sx: "2 \<le> sample_size x" and sy: "2 \<le> sample_size y"
    and n: "sample_size x + sample_size y < 2 ^ 52"
  shows "\<exists>m. bm_moments x y (sample_size x) (sample_size y) = Inr m"
proof -
  let ?j = "join_count_data [x, y]"
  have nj: "sample_size ?j < 2 ^ 52" using n by (simp add: sample_size_join[OF dx dy])
  have nx: "sample_size x < 2 ^ 52" and ny: "sample_size y < 2 ^ 52"
    using n sx sy by simp_all
  obtain rkc where rkc: "rank_count_data ?j ''average'' = Inr rkc"
    "\<forall>v\<in>fst ` set ?j. map_of rkc v = Some (midrank ?j v)"
    using rank_count_data_lookup[OF distinct_join counts_join[OF dx dy cx cy] nj] by blast
  obtain rkx where rkx: "rank_count_data x ''average'' = Inr rkx"
    "\<forall>v\<in>fst ` set x. map_of rkx v = Some (midrank x v)"
    using rank_count_data_lookup[OF dx cx nx] by blast
  obtain rky where rky: "rank_count_data y ''average'' = Inr rky"
    "\<forall>v\<in>fst ` set y. map_of rky v = Some (midrank y v)"
    using rank_count_data_lookup[OF dy cy ny] by blast
  have cx': "\<forall>v\<in>fst ` set x. \<exists>r. map_of rkc v = Some r"
    and cy': "\<forall>v\<in>fst ` set y. \<exists>r. map_of rkc v = Some r"
    using rkc(2) by (auto simp: keys_join)
  have xx: "\<forall>v\<in>fst ` set x. \<exists>r. map_of rkx v = Some r"
    and yy: "\<forall>v\<in>fst ` set y. \<exists>r. map_of rky v = Some r"
    using rkx(2) rky(2) by auto
  have sizes: "sample_size x \<noteq> 0" "sample_size y \<noteq> 0" "sample_size x \<noteq> 1" "sample_size y \<noteq> 1"
    using sx sy by simp_all
  obtain a1 where a1: "rank_mean rkc x (sample_size x) = Inr a1"
    using rank_mean_returns[OF cx' sizes(1)] by blast
  obtain a2 where a2: "rank_mean rkc y (sample_size y) = Inr a2"
    using rank_mean_returns[OF cy' sizes(2)] by blast
  obtain a3 where a3: "rank_mean rkx x (sample_size x) = Inr a3"
    using rank_mean_returns[OF xx sizes(1)] by blast
  obtain a4 where a4: "rank_mean rky y (sample_size y) = Inr a4"
    using rank_mean_returns[OF yy sizes(2)] by blast
  obtain s1 where s1: "dispersion rkc rkx x a1 a3 (sample_size x) = Inr s1"
    using dispersion_returns[OF cx' xx sizes(3)] by blast
  obtain s2 where s2: "dispersion rkc rky y a2 a4 (sample_size y) = Inr s2"
    using dispersion_returns[OF cy' yy sizes(4)] by blast
  show ?thesis
    unfolding bm_moments_def by (simp only: rkc(1) rkx(1) rky(1) a1 a2 a3 a4 s1 s2 bind_err_simps) blast
qed

section \<open>The claims\<close>

text \<open>
  C1 (the code departs from the claim). The claim: for count data with non-negative counts
  the function returns the pair that the array-based Brunner-Munzel test returns on the
  expanded samples. For \<^verbatim>\<open>x = {0: 1}\<close> and \<^verbatim>\<open>y = {0: 1, 1: 2}\<close> the function returns no pair:
  \<^verbatim>\<open>Sx /= nx - 1\<close> divides a Python float by the int 0 and raises ZeroDivisionError,
  whatever the three options are.
\<close>

theorem single_observation_raises:
  "brunnermunzel_from_count_data t_cdf norm_cdf [(Val 0, 1)] [(Val 0, 1), (Val 1, 2)]
     alternative distribution nan_policy = Inl ZeroDivisionError"
  by (simp add: bm_eval_defs)

theorem single_observation_raises_witness:
  "brunnermunzel_from_count_data some_t_cdf some_norm_cdf [(Val 0, 1)] [(Val 0, 1), (Val 1, 2)]
     ''two-sided'' ''t'' Propagate = Inl ZeroDivisionError"
  by (rule single_observation_raises)

text \<open>
  C4. If a count of \<^verbatim>\<open>x\<close> or of \<^verbatim>\<open>y\<close> is negative, the function raises the ValueError of its
  first check, whatever the keys (NaN or not), the alternative, the distribution and the
  policy for NaN are: no other check comes first.
\<close>

theorem negative_counts_rejected:
  assumes "(\<exists>c \<in> snd ` set x. c < 0) \<or> (\<exists>c \<in> snd ` set y. c < 0)"
  shows "brunnermunzel_from_count_data t_cdf norm_cdf x y alternative distribution nan_policy
         = Inl (ValueError ''The input contains negative counts'')"
proof -
  have "[c \<leftarrow> map snd x. c < 0] \<noteq> [] \<or> [c \<leftarrow> map snd y. c < 0] \<noteq> []"
    using assms by (auto simp: filter_empty_conv)
  then show ?thesis
    unfolding brunnermunzel_from_count_data_def by (simp only: if_True)
qed

theorem negative_counts_rejected_witness:
  "\<forall>t_cdf norm_cdf alternative distribution nan_policy.
     brunnermunzel_from_count_data t_cdf norm_cdf [(Val 0, - 1), (Val 1, 2)]
       [(Val 0, 1), (Val 1, 2)] alternative distribution nan_policy
     = Inl (ValueError ''The input contains negative counts'')"
  using negative_counts_rejected [of "[(Val 0, - 1), (Val 1, 2)]" "[(Val 0, 1), (Val 1, 2)]"]
  by simp

text \<open>
  C6 (the code departs from the claim). The claim: every method other than
  \<^verbatim>\<open>"average"\<close> is rejected. The test \<^verbatim>\<open>method not in ("average")\<close> is a substring test, so
  the method \<^verbatim>\<open>"ave"\<close> is accepted and ranks are returned.
\<close>

theorem substring_method_accepted:
  "rank_count_data [(0::real, 1)] ''ave'' = Inr [(0, 1)]"
  by (simp add: rank_count_data_def str_in_def getitem_def sublist_code int_truediv_2_exact)

text \<open>
  C2 (amended). For a count data with pairwise different keys and non-negative counts
  whose sum is below \<open>2 ^ 52\<close>, \<^verbatim>\<open>rank_count_data\<close> with method \<^verbatim>\<open>"average"\<close> returns the keys in
  ascending order, and the rank of each value \<open>v\<close> with count \<open>c\<close> is exactly the midpoint of
  its span: the cursor at \<open>v\<close> (1 plus the counts of the smaller keys) plus the cursor plus
  \<open>c - 1\<close>, over 2. In particular \<^verbatim>\<open>rank_count_data({0: 1, 2: 2, 3: 1})\<close> is
  \<^verbatim>\<open>{0: 1.0, 2: 2.5, 3: 4.0}\<close>.
\<close>

theorem average_rank_is_span_midpoint:
  assumes "distinct (map fst x)" and "\<forall>c \<in> snd ` set x. 0 \<le> c" and "sample_size x < 2 ^ 52"
  shows "(\<exists>rk. rank_count_data x ''average'' = Inr rk \<and> map fst rk = sort (map fst x)
            \<and> (\<forall>(v, c) \<in> set x.
                  map_of rk v = Some (real_of_int (cursor_at x v + (cursor_at x v + c - 1)) / 2)))
         \<and> rank_count_data [(0::real, 1), (2, 2), (3, 1)] ''average''
             = Inr [(0, 1), (2, 5 / 2), (3, 4)]"
proof
  obtain rk where rk: "rank_count_data x ''average'' = Inr rk" "map fst rk = sort (map fst x)"
    "\<forall>v\<in>fst ` set x. map_of rk v = Some (midrank x v)"
    using rank_count_data_lookup[OF assms] by blast
  have "map_of rk v = Some (real_of_int (cursor_at x v + (cursor_at x v + c - 1)) / 2)"
    if "(v, c) \<in> set x" for v c
  proof -
    have "dict_get x v 0 = c" using assms(1) that by (rule dict_get_present)
    moreover have "v \<in> fst ` set x" using that by force
    ultimately show ?thesis using rk(3)[rule_format, of v] by (simp only: midrank_def)
  qed
  then show "\<exists>rk. rank_count_data x ''average'' = Inr rk \<and> map fst rk = sort (map fst x)
            \<and> (\<forall>(v, c) \<in> set x.
                  map_of rk v = Some (real_of_int (cursor_at x v + (cursor_at x v + c - 1)) / 2))"
    using rk(1,2) by blast
next
  show "rank_count_data [(0::real, 1), (2, 2), (3, 1)] ''average''
             = Inr [(0, 1), (2, 5 / 2), (3, 4)]"
    by (simp add: rank_count_data_def getitem_def int_truediv_2_exact)
qed

theorem average_rank_is_span_midpoint_witness:
  "\<exists>rk. rank_count_data [(3::real, 1), (0, 1), (2, 2)] ''average'' = Inr rk
        \<and> map fst rk = [0, 2, 3]
        \<and> map_of rk 3 = Some 4 \<and> map_of rk 0 = Some 1 \<and> map_of rk 2 = Some (5 / 2)"
  using average_rank_is_span_midpoint [of "[(3::real, 1), (0, 1), (2, 2)]"]
  by (simp add: cursor_at_def below_def sample_size_def)

text \<open>
  C2 as stated fails for large counts: in \<^verbatim>\<open>{0: 9007199254740994}\<close>, a count of
  \<open>2 ^ 53 + 2\<close>, the midpoint of the span of 0 is 4503599627370497.5 and the rank returned
  is the binary64 number next to it, 4503599627370498.
\<close>

theorem rounded_rank_counterexample:
  "rank_count_data [(0::real, 9007199254740994)] ''average'' = Inr [(0, 4503599627370498)]
   \<and> real_of_int (cursor_at [(0::real, 9007199254740994)] 0
        + (cursor_at [(0::real, 9007199254740994)] 0 + 9007199254740994 - 1)) / 2
     = 9007199254740995 / 2
   \<and> (4503599627370498 :: real) \<noteq> 9007199254740995 / 2"
  by (simp add: rank_above_2_53 cursor_at_def below_def)

text \<open>
  C3 (amended). For a count data with pairwise different keys and non-negative counts
  whose sum \<open>n\<close> is below \<open>2 ^ 52\<close>, the ranks that \<^verbatim>\<open>rank_count_data\<close> returns, each multiplied
  by the count of its value, have the exact sum \<open>n * (n + 1) / 2\<close>. The sum is the sum of
  the returned numbers as real numbers, not a sum computed in floating point.
\<close>

theorem weighted_rank_sum_is_triangular:
  assumes "distinct (map fst x)" and "\<forall>c \<in> snd ` set x. 0 \<le> c" and "sample_size x < 2 ^ 52"
  shows "\<exists>rk. rank_count_data x ''average'' = Inr rk
           \<and> (\<Sum>(v, r)\<leftarrow>rk. r * real_of_int (dict_get x v 0))
             = real_of_int (sample_size x * (sample_size x + 1)) / 2"
proof -
  obtain rk where rk: "rank_count_data x ''average'' = Inr rk" "map fst rk = sort (map fst x)"
    "\<forall>v\<in>fst ` set x. map_of rk v = Some (midrank x v)"
    using rank_count_data_lookup[OF assms] by blast
  have d: "distinct (map fst rk)" using assms(1) rk(2) by simp
  have keys: "fst ` set rk = fst ` set x"
    using rk(2) by (metis list.set_map set_sort)
  have "(\<Sum>(v, r)\<leftarrow>rk. r * real_of_int (dict_get x v 0))
        = (\<Sum>v\<in>fst ` set rk. dict_get rk v 0 * real_of_int (dict_get x v 0))"
    using d by (rule sum_list_alist_keys)
  also have "\<dots> = (\<Sum>v\<in>fst ` set x. midrank x v * real_of_int (dict_get x v 0))"
    unfolding keys by (intro sum.cong) (simp_all add: dict_get_def rk(3))
  also have "\<dots> = (\<Sum>(v, c)\<leftarrow>x. midrank x v * real_of_int c)"
    using sum_list_alist_keys[OF assms(1), of "\<lambda>v c. midrank x v * real_of_int c" 0] by simp
  also have "\<dots> = real_of_int (sample_size x * (sample_size x + 1)) / 2"
    by (rule weighted_rank_sum[OF assms(1)])
  finally show ?thesis using rk(1) by blast
qed

theorem weighted_rank_sum_is_triangular_witness:
  "\<exists>rk. rank_count_data [(3::real, 1), (0, 1), (2, 2)] ''average'' = Inr rk
        \<and> (\<Sum>(v, r)\<leftarrow>rk. r * real_of_int (dict_get [(3::real, 1), (0, 1), (2, 2)] v 0)) = 10"
  using weighted_rank_sum_is_triangular [of "[(3::real, 1), (0, 1), (2, 2)]"]
  by (simp add: sample_size_def)

text \<open>
  C3 as stated fails for large counts: in \<^verbatim>\<open>{0: 9007199254740994}\<close> the rank returned is
  4503599627370498, not the midpoint, and the rank times the count is not
  \<open>n * (n + 1) / 2\<close>.
\<close>

theorem rounded_rank_sum_counterexample:
  "rank_count_data [(0::real, 9007199254740994)] ''average'' = Inr [(0, 4503599627370498)]
   \<and> (4503599627370498 :: real) * real_of_int 9007199254740994
     \<noteq> real_of_int (sample_size [(0::real, 9007199254740994)]
                      * (sample_size [(0::real, 9007199254740994)] + 1)) / 2"
  by (simp add: rank_above_2_53 sample_size_def)

text \<open>
  C7 (amended). For a count data with pairwise different keys and non-negative counts
  whose sum is below \<open>2 ^ 52\<close>, a key \<open>k\<close> with count 0 is in the result of
  \<^verbatim>\<open>rank_count_data\<close>, and its rank is the cursor at \<open>k\<close> minus one half: its span is
  \<^verbatim>\<open>(r, r - 1)\<close>. Its presence shifts no other rank: every other key has the rank it has in
  the count data without \<open>k\<close>.
\<close>

theorem zero_count_rank_below_cursor:
  assumes "distinct (map fst (xs @ (k, 0) # ys))"
    and "\<forall>c \<in> snd ` set (xs @ (k, 0) # ys). 0 \<le> c"
    and "sample_size (xs @ (k, 0) # ys) < 2 ^ 52"
  shows "\<exists>rk rk'. rank_count_data (xs @ (k, 0) # ys) ''average'' = Inr rk
           \<and> rank_count_data (xs @ ys) ''average'' = Inr rk'
           \<and> map_of rk k = Some (real_of_int (cursor_at (xs @ (k, 0) # ys) k) - 1 / 2)
           \<and> (\<forall>v. v \<noteq> k \<longrightarrow> map_of rk v = map_of rk' v)"
proof -
  let ?x' = "xs @ (k, 0) # ys" and ?x = "xs @ ys"
  have d: "distinct (map fst ?x)" and fresh: "k \<notin> fst ` set ?x"
    using assms(1) by auto
  have c: "\<forall>c \<in> snd ` set ?x. 0 \<le> c" using assms(2) by auto
  have n: "sample_size ?x < 2 ^ 52" using assms(3) by (simp only: sample_size_zero_entry)
  obtain rk where rk: "rank_count_data ?x' ''average'' = Inr rk"
    "map fst rk = sort (map fst ?x')" "\<forall>v\<in>fst ` set ?x'. map_of rk v = Some (midrank ?x' v)"
    using rank_count_data_lookup[OF assms] by blast
  obtain rk' where rk': "rank_count_data ?x ''average'' = Inr rk'"
    "map fst rk' = sort (map fst ?x)" "\<forall>v\<in>fst ` set ?x. map_of rk' v = Some (midrank ?x v)"
    using rank_count_data_lookup[OF d c n] by blast
  have "dict_get ?x' k 0 = 0" using assms(1) by (intro dict_get_present) auto
  then have "midrank ?x' k = real_of_int (cursor_at ?x' k) - 1 / 2"
    by (simp add: midrank_def diff_divide_distrib)
  moreover have "map_of rk k = Some (midrank ?x' k)" using rk(3) by simp
  ultimately have at_k: "map_of rk k = Some (real_of_int (cursor_at ?x' k) - 1 / 2)" by simp
  have "map_of rk v = map_of rk' v" if "v \<noteq> k" for v
  proof (cases "v \<in> fst ` set ?x")
    case True
    then have "v \<in> fst ` set ?x'" by auto
    then have "map_of rk v = Some (midrank ?x' v)" using rk(3) by blast
    moreover have "map_of rk' v = Some (midrank ?x v)" using rk'(3) True by blast
    ultimately show ?thesis by (simp add: midrank_zero_entry[OF fresh])
  next
    case False
    then have "v \<notin> fst ` set ?x'" using that by auto
    then have "map_of rk v = None" by (rule ranks_absent[OF rk(1,2)])
    moreover have "map_of rk' v = None" using False by (rule ranks_absent[OF rk'(1,2)])
    ultimately show ?thesis by simp
  qed
  then show ?thesis using rk(1) rk'(1) at_k by blast
qed

theorem zero_count_rank_below_cursor_witness:
  "\<exists>rk rk'. rank_count_data [(1::real, 2), (2, 0), (3, 1)] ''average'' = Inr rk
           \<and> rank_count_data [(1::real, 2), (3, 1)] ''average'' = Inr rk'
           \<and> map_of rk 2 = Some (5 / 2)
           \<and> (\<forall>v. v \<noteq> 2 \<longrightarrow> map_of rk v = map_of rk' v)"
  using zero_count_rank_below_cursor [of "[(1::real, 2)]" 2 "[(3, 1)]"]
  by (simp add: cursor_at_def below_def sample_size_def)

text \<open>
  C7 as stated fails: in \<^verbatim>\<open>{0: 0, 1: 1}\<close> the cursor at the key 0 is 1 and the rank of 0 is 0.5.
\<close>

theorem zero_count_rank_counterexample:
  "rank_count_data [(0::real, 0), (1, 1)] ''average'' = Inr [(0, 1 / 2), (1, 1)]
   \<and> cursor_at [(0::real, 0), (1, 1)] 0 = 1"
  by (simp add: rank_count_data_def getitem_def cursor_at_def below_def int_truediv_2_exact)

text \<open>
  C8 (amended). For a count data with pairwise different keys whose counts are all 0,
  \<^verbatim>\<open>rank_count_data\<close> returns every key, in ascending order, with the rank one half; the
  result is the empty dict exactly when the count data is empty.
\<close>

theorem all_zero_ranks_are_half:
  assumes "distinct (map fst x)" and "\<forall>c \<in> snd ` set x. c = 0"
  shows "rank_count_data x ''average'' = Inr (map (\<lambda>v. (v, 1 / 2)) (sort (map fst x)))
         \<and> (rank_count_data x ''average'' = Inr [] \<longleftrightarrow> x = [])"
proof -
  have zero: "dict_get x v 0 = 0" for v
  proof (cases "v \<in> fst ` set x")
    case True
    then obtain c where "(v, c) \<in> set x" by auto
    then show ?thesis using assms dict_get_present[OF assms(1), of v c 0] by force
  next
    case False
    then show ?thesis by (rule dict_get_absent)
  qed
  have c: "\<forall>c \<in> snd ` set x. 0 \<le> c" using assms(2) by simp
  have "sample_size x = 0" by (simp add: sample_size_keys[OF assms(1)] zero)
  then have n: "sample_size x < 2 ^ 52" by simp
  have "spans x 1 (sort (map fst x)) = map (\<lambda>v. (v, (1, 1 - 1))) (sort (map fst x))"
    by (rule spans_all_zero) (rule zero)
  then have eq: "rank_count_data x ''average'' = Inr (map (\<lambda>v. (v, 1 / 2)) (sort (map fst x)))"
    by (simp add: rank_count_data_spans[OF assms(1) c n] comp_def)
  moreover have "map (\<lambda>v. (v, 1 / 2 :: real)) (sort (map fst x)) = [] \<longleftrightarrow> x = []"
    by (metis length_map length_sort length_0_conv)
  ultimately show ?thesis by simp
qed

theorem all_zero_ranks_are_half_witness:
  "rank_count_data [(2::real, 0), (1, 0)] ''average'' = Inr [(1, 1 / 2), (2, 1 / 2)]
   \<and> rank_count_data ([] :: real count_data_t) ''average'' = Inr []"
  using all_zero_ranks_are_half [of "[(2::real, 0), (1, 0)]"]
        all_zero_ranks_are_half [of "[] :: real count_data_t"]
  by simp

text \<open>
  C8 as stated fails: the all-zero count data \<^verbatim>\<open>{0: 0, 1: 0, 2.5: 0}\<close> has three ranks.
\<close>

theorem all_zero_ranks_counterexample:
  "rank_count_data [(0::real, 0), (1, 0), (5 / 2, 0)] ''average''
     = Inr [(0, 1 / 2), (1, 1 / 2), (5 / 2, 1 / 2)]
   \<and> rank_count_data [(0::real, 0), (1, 0), (5 / 2, 0)] ''average'' \<noteq> Inr []"
  by (simp add: rank_count_data_def getitem_def int_truediv_2_exact)

text \<open>
  C5 (amended). For count data with non-negative counts, unless the policy is raise and a
  NaN key is present: if a sample has size 0 (the sum of its counts, after the entries with
  a NaN key are left out under the policy omit), or a NaN key is present and the policy is
  propagate, the function returns the pair (NaN, NaN) and raises nothing. In particular
  \<^verbatim>\<open>x = {}\<close>, \<^verbatim>\<open>y = {0: 1, 1: 2}\<close> gives (NaN, NaN).
\<close>

theorem degenerate_cases_give_nan:
  assumes "\<forall>c \<in> snd ` set x. 0 \<le> c" and "\<forall>c \<in> snd ` set y. 0 \<le> c"
    and "nan_policy = Raise \<longrightarrow> Nan \<notin> fst ` set x \<union> fst ` set y"
    and "sample_size (after_policy nan_policy x) = 0
         \<or> sample_size (after_policy nan_policy y) = 0
         \<or> (nan_policy = Propagate \<and> Nan \<in> fst ` set x \<union> fst ` set y)"
  shows "brunnermunzel_from_count_data t_cdf norm_cdf x y alternative distribution nan_policy
         = Inr \<lparr>statistic = NaN, pvalue = NaN\<rparr>"
proof -
  have noneg: "\<not> ((\<exists>c \<in> snd ` set x. c < 0) \<or> (\<exists>c \<in> snd ` set y. c < 0))"
    using assms(1,2) by force
  show ?thesis
  proof (cases "Nan \<in> fst ` set x \<union> fst ` set y \<and> nan_policy = Propagate")
    case True
    then show ?thesis using noneg by (simp add: bm_top)
  next
    case False
    have size: "sample_size (finite_keys z) = sample_size (after_policy nan_policy z)"
      if "z = x \<or> z = y" for z
    proof (cases "nan_policy = Omit")
      case True
      then show ?thesis by (simp add: after_policy_def sample_size_finite_keys)
    next
      case no: False
      have "Nan \<notin> fst ` set x \<union> fst ` set y"
        using False no assms(3) by (cases nan_policy) auto
      then have "Nan \<notin> fst ` set z" using that by auto
      then show ?thesis using no by (simp add: after_policy_def sample_size_finite_keys filter_no_nan)
    qed
    have "sample_size (finite_keys x) = 0 \<or> sample_size (finite_keys y) = 0"
      using assms(4) False size by auto
    then have "bm_core t_cdf norm_cdf (finite_keys x) (finite_keys y) alternative distribution
               = Inr \<lparr>statistic = NaN, pvalue = NaN\<rparr>"
      by (auto simp: bm_core_def sample_size_def)
    then show ?thesis using noneg False assms(3) by (auto simp: bm_top)
  qed
qed

theorem degenerate_cases_give_nan_witness:
  "(\<forall>t_cdf norm_cdf alternative distribution nan_policy.
      brunnermunzel_from_count_data t_cdf norm_cdf [] [(Val 0, 1), (Val 1, 2)]
        alternative distribution nan_policy = Inr \<lparr>statistic = NaN, pvalue = NaN\<rparr>)
   \<and> (\<forall>t_cdf norm_cdf alternative distribution.
      brunnermunzel_from_count_data t_cdf norm_cdf [(Nan, 1), (Val 1, 2)] [(Val 0, 1), (Val 1, 2)]
        alternative distribution Propagate = Inr \<lparr>statistic = NaN, pvalue = NaN\<rparr>)
   \<and> (\<forall>t_cdf norm_cdf alternative distribution.
      brunnermunzel_from_count_data t_cdf norm_cdf [(Nan, 3)] [(Val 0, 1), (Val 1, 2)]
        alternative distribution Omit = Inr \<lparr>statistic = NaN, pvalue = NaN\<rparr>)"
  using degenerate_cases_give_nan [of "[]" "[(Val 0, 1), (Val 1, 2)]"]
        degenerate_cases_give_nan [of "[(Nan, 1), (Val 1, 2)]" "[(Val 0, 1), (Val 1, 2)]" Propagate]
        degenerate_cases_give_nan [of "[(Nan, 3)]" "[(Val 0, 1), (Val 1, 2)]" Omit]
  by (simp add: after_policy_def sample_size_def)

text \<open>
  C5 as stated fails: with the empty \<^verbatim>\<open>x\<close>, of size 0, a NaN key in \<^verbatim>\<open>y\<close> and the policy
  raise, the function raises the ValueError of the NaN check.
\<close>

theorem empty_sample_with_nan_raises_counterexample:
  "brunnermunzel_from_count_data some_t_cdf some_norm_cdf [] [(Nan, 1), (Val 0, 1)]
     ''two-sided'' ''t'' Raise = Inl (ValueError ''The input contains nan values'')
   \<and> sample_size (after_policy Raise []) = 0"
  by (simp add: brunnermunzel_from_count_data_def contains_nan_def after_policy_def sample_size_def)

text \<open>
  C9 (the code departs from the claim). The claim: an entry with count 0 added to a
  count data changes nothing. The entry \<^verbatim>\<open>nan: 0\<close> added to \<^verbatim>\<open>x = {0: 2, 1: 1}\<close> stands for no
  observation, and the samples expand to the same arrays with and without it; yet with it
  the function returns (NaN, NaN) under the policy propagate, where it returns the
  statistic \<open>sqrt 2 / 2\<close> without it, and raises under the policy raise.
\<close>

theorem nan_entry_changes_result:
  "brunnermunzel_from_count_data some_t_cdf some_norm_cdf
     [(Val 0, 2), (Val 1, 1), (Nan, 0)] [(Val 0, 1), (Val 1, 2)] ''greater'' ''normal'' Propagate
     = Inr \<lparr>statistic = NaN, pvalue = NaN\<rparr>
   \<and> brunnermunzel_from_count_data some_t_cdf some_norm_cdf
     [(Val 0, 2), (Val 1, 1)] [(Val 0, 1), (Val 1, 2)] ''greater'' ''normal'' Propagate
     = Inr \<lparr>statistic = Fin (sqrt 2 / 2), pvalue = Fin (1 / 2)\<rparr>
   \<and> brunnermunzel_from_count_data some_t_cdf some_norm_cdf
     [(Val 0, 2), (Val 1, 1), (Nan, 0)] [(Val 0, 1), (Val 1, 2)] ''greater'' ''normal'' Raise
     = Inl (ValueError ''The input contains nan values'')"
  by (simp add: bm_eval_defs bm_pvalue_def wbfn_def pooled_def np_sqrt_def some_norm_cdf_def
        power2_eq_square real_sqrt_divide)

theorem nan_entry_changes_result_witness:
  "brunnermunzel_from_count_data some_t_cdf some_norm_cdf
     [(Val 0, 2), (Val 1, 1), (Nan, 0)] [(Val 0, 1), (Val 1, 2)] ''greater'' ''normal'' Propagate
     = Inr \<lparr>statistic = NaN, pvalue = NaN\<rparr>"
  using nan_entry_changes_result by (rule conjunct1)




end
